theory Spec2Isabelle
  imports Complex_Main
begin

section \<open>Character sets\<close>

text \<open>
  The five string constants at the top of \<^verbatim>\<open>index.js\<close>. All of them are ASCII, so a
  JavaScript code unit is modelled by a \<^typ>\<open>char\<close>. The last two characters of
  \<^verbatim>\<open>SIMILAR\<close> are the single and the double quote, written by their codes.
\<close>

definition LOWER :: string where
  "LOWER = ''abcdefghijklmnopqrstuvwxyz''"

definition UPPER :: string where
  "UPPER = ''ABCDEFGHIJKLMNOPQRSTUVWXYZ''"

definition NUMBERS :: string where
  "NUMBERS = ''0123456789''"

definition SYMBOLS :: string where
  "SYMBOLS = ''!@#$%^&*()-_=+[]{};:,.<>/?''"

definition SIMILAR :: string where
  "SIMILAR = ''0O1lI|`'' @ [CHR 0x27, CHR 0x22]"

section \<open>The settings object\<close>

text \<open>
  The object built by \<^verbatim>\<open>getSettings\<close> and destructured by \<^verbatim>\<open>generatePassword\<close>.
  The field \<^verbatim>\<open>length\<close> is an integer (it may be zero or negative); it is called
  \<open>length_opt\<close> here because \<open>length\<close> is the list function of HOL.
\<close>

record settings =
  length_opt :: int
  includeLower :: bool
  includeUpper :: bool
  includeNumbers :: bool
  includeSymbols :: bool
  excludeSimilarChars :: bool
  guaranteeEachType :: bool

section \<open>The random source\<close>

text \<open>
  \<^verbatim>\<open>Math.random()\<close> is the only effect of the generator. The source of randomness is a
  sequence of numbers, the \<open>k\<close>-th of which is what the \<open>k\<close>-th call returns; the
  generator threads the number of calls made so far. The contract of \<^verbatim>\<open>Math.random\<close>
  is that every value lies in \<open>[0, 1)\<close>. The product and the floor are taken over the
  reals: for a value in \<open>[0, 1)\<close> and a positive integer \<open>n\<close> both the exact and the
  rounded product floor to an index below \<open>n\<close>, and every such index is reached by some
  real in \<open>[0, 1)\<close>.
\<close>

type_synonym random_source = "nat \<Rightarrow> real"

definition random_ok :: "random_source \<Rightarrow> bool" where
  "random_ok rnd = (\<forall>k. 0 \<le> rnd k \<and> rnd k < 1)"

definition random_index :: "random_source \<Rightarrow> nat \<Rightarrow> nat \<Rightarrow> int" where
  \<comment> \<open>\<^verbatim>\<open>Math.floor(Math.random() * n)\<close>, at the \<open>k\<close>-th call\<close>
  "random_index rnd k n = \<lfloor>rnd k * real n\<rfloor>"

section \<open>JavaScript strings and arrays\<close>

text \<open>
  Reading a string or an array out of range gives \<^verbatim>\<open>undefined\<close>, which is \<open>None\<close>
  here; so the elements of \<^verbatim>\<open>passwordChars\<close> are optional characters. Writing an array
  beyond its end extends it with holes (which read as \<^verbatim>\<open>undefined\<close>), writing at a
  negative index sets a property that is no element. \<^verbatim>\<open>join('')\<close> turns
  \<^verbatim>\<open>undefined\<close> into the empty string.
\<close>

definition str_at :: "string \<Rightarrow> int \<Rightarrow> char option" where
  "str_at s i = (if 0 \<le> i \<and> i < int (length s) then Some (s ! nat i) else None)"

definition arr_at :: "char option list \<Rightarrow> int \<Rightarrow> char option" where
  "arr_at a i = (if 0 \<le> i \<and> i < int (length a) then a ! nat i else None)"

definition arr_set :: "char option list \<Rightarrow> int \<Rightarrow> char option \<Rightarrow> char option list" where
  "arr_set a i v =
     (if i < 0 then a
      else if i < int (length a) then a[nat i := v]
      else a @ replicate (nat i - length a) None @ [v])"

definition arr_swap :: "char option list \<Rightarrow> int \<Rightarrow> int \<Rightarrow> char option list" where
  \<comment> \<open>\<^verbatim>\<open>[a[i], a[j]] = [a[j], a[i]]\<close>: both reads, then the write at \<open>i\<close>, then at \<open>j\<close>\<close>
  "arr_swap a i j =
     (let aj = arr_at a j; ai = arr_at a i
      in arr_set (arr_set a i aj) j ai)"

definition arr_slice0 :: "char option list \<Rightarrow> int \<Rightarrow> char option list" where
  \<comment> \<open>\<^verbatim>\<open>a.slice(0, e)\<close>: a negative end counts from the end of the array\<close>
  "arr_slice0 a e =
     (if e < 0 then take (nat (int (length a) + e)) a else take (nat e) a)"

definition arr_join :: "char option list \<Rightarrow> string" where
  "arr_join a = concat (map (\<lambda>v. case v of None \<Rightarrow> [] | Some c \<Rightarrow> [c]) a)"

definition set_from :: "char list \<Rightarrow> char list" where
  \<comment> \<open>\<^verbatim>\<open>Array.from(new Set(xs))\<close>: the first occurrences, in insertion order\<close>
  "set_from xs = fold (\<lambda>ch s. if ch \<in> set s then s else s @ [ch]) xs []"

section \<open>The generator\<close>

definition not_similar :: "char \<Rightarrow> bool" where
  \<comment> \<open>\<^verbatim>\<open>ch => !SIMILAR.includes(ch)\<close>\<close>
  "not_similar ch = (ch \<notin> set SIMILAR)"

definition pools_of :: "settings \<Rightarrow> string list" where
  "pools_of opts =
     (if includeLower opts then [LOWER] else []) @
     (if includeUpper opts then [UPPER] else []) @
     (if includeNumbers opts then [NUMBERS] else []) @
     (if includeSymbols opts then [SYMBOLS] else [])"

definition allowed_filtered :: "settings \<Rightarrow> string" where
  \<comment> \<open>the value of \<^verbatim>\<open>allowed\<close> before the fallback test\<close>
  "allowed_filtered opts =
     (let allowed = concat (pools_of opts)
      in if excludeSimilarChars opts then set_from (filter not_similar allowed) else allowed)"

definition allowed_of :: "settings \<Rightarrow> string" where
  \<comment> \<open>the value of \<^verbatim>\<open>allowed\<close> after the fallback test\<close>
  "allowed_of opts =
     (let allowed = allowed_filtered opts
      in if length allowed = 0 then concat (pools_of opts) else allowed)"

definition pool_str :: "bool \<Rightarrow> string \<Rightarrow> string" where
  \<comment> \<open>\<^verbatim>\<open>poolStr\<close> in the loop that seeds one character of each pool\<close>
  "pool_str excl pool = (if excl then filter not_similar pool else pool)"

text \<open>
  The state of the three loops is the number of calls of \<^verbatim>\<open>Math.random\<close> made so far
  and the array \<^verbatim>\<open>passwordChars\<close>.
\<close>

type_synonym gen_state = "nat \<times> char option list"

fun guarantee_loop :: "random_source \<Rightarrow> bool \<Rightarrow> string list \<Rightarrow> gen_state \<Rightarrow> gen_state" where
  "guarantee_loop rnd excl [] st = st"
| "guarantee_loop rnd excl (pool # ps) (k, pc) =
     (let poolStr = pool_str excl pool
      in if length poolStr > 0
         then guarantee_loop rnd excl ps
                (Suc k, pc @ [str_at poolStr (random_index rnd k (length poolStr))])
         else guarantee_loop rnd excl ps (k, pc))"

function fill_loop :: "random_source \<Rightarrow> string \<Rightarrow> int \<Rightarrow> gen_state \<Rightarrow> gen_state" where
  "fill_loop rnd allowed len (k, pc) =
     (if int (length pc) < len
      then fill_loop rnd allowed len
             (Suc k, pc @ [str_at allowed (random_index rnd k (length allowed))])
      else (k, pc))"
  by pat_completeness auto
termination
  by (relation "measure (\<lambda>(rnd, allowed, len, k, pc). nat (len - int (length pc)))") auto

text \<open>
  The equation of \<open>fill_loop\<close> rewrites its own right-hand side; the proofs unfold it
  one iteration at a time.
\<close>

declare fill_loop.simps [simp del]

fun shuffle_loop :: "random_source \<Rightarrow> nat \<Rightarrow> gen_state \<Rightarrow> gen_state" where
  "shuffle_loop rnd 0 st = st"
| "shuffle_loop rnd (Suc i) (k, pc) =
     (let j = random_index rnd k (Suc i + 1)
      in shuffle_loop rnd i (Suc k, arr_swap pc (int (Suc i)) j))"

definition generate_chars :: "random_source \<Rightarrow> settings \<Rightarrow> gen_state" where
  \<comment> \<open>the array before the final slice, for settings that pass both early returns;
      the shuffle starts at the last index and does nothing on an empty array\<close>
  "generate_chars rnd opts =
     (let pools = pools_of opts;
          allowed = allowed_of opts;
          st0 = (0, []);
          st1 = (if guaranteeEachType opts
                 then guarantee_loop rnd (excludeSimilarChars opts) pools st0 else st0);
          st2 = fill_loop rnd allowed (length_opt opts) st1
      in shuffle_loop rnd (length (snd st2) - 1) st2)"

definition generatePassword :: "random_source \<Rightarrow> settings \<Rightarrow> string" where
  "generatePassword rnd opts =
     (if length_opt opts \<le> 0 then ''''
      else if length (pools_of opts) = 0 then ''''
      else arr_join (arr_slice0 (snd (generate_chars rnd opts)) (length_opt opts)))"

section \<open>The strength estimator\<close>

text \<open>
  The argument is a string or absent (\<open>None\<close>); both the absent and the empty string are
  falsy. A regular expression that is one character class tests whether some code unit of
  the string is in the class. Every class of the estimator is ASCII, so a code unit beyond
  ASCII, like any \<^typ>\<open>char\<close> of code 128 or more, is in none of them and counts one in
  the length. \<^verbatim>\<open>Math.log2\<close> is the real logarithm to base 2.
\<close>

record strength =
  score :: nat
  label :: "string option"

definition char_range :: "char \<Rightarrow> char \<Rightarrow> char \<Rightarrow> bool" where
  \<comment> \<open>the class range \<^verbatim>\<open>lo-hi\<close>\<close>
  "char_range lo hi c = ((of_char lo :: nat) \<le> of_char c \<and> (of_char c :: nat) \<le> of_char hi)"

definition symbol_class :: "char \<Rightarrow> bool" where
  \<comment> \<open>the class of the fourth regular expression, its escapes resolved\<close>
  "symbol_class c = (c \<in> set ''!@#$%^&*()-_=+[]{};:,.<>/?'')"

definition regex_test :: "(char \<Rightarrow> bool) \<Rightarrow> string \<Rightarrow> bool" where
  "regex_test cls pw = list_ex cls pw"

definition poolSize :: "string \<Rightarrow> nat" where
  "poolSize pw =
     (let p0 = 0;
          p1 = (if regex_test (char_range CHR ''a'' CHR ''z'') pw then p0 + 26 else p0);
          p2 = (if regex_test (char_range CHR ''A'' CHR ''Z'') pw then p1 + 26 else p1);
          p3 = (if regex_test (char_range CHR ''0'' CHR ''9'') pw then p2 + 10 else p2);
          p4 = (if regex_test symbol_class pw then p3 + 32 else p3)
      in p4)"

definition bits :: "string \<Rightarrow> real" where
  "bits pw = (if poolSize pw > 0 then real (length pw) * log 2 (real (poolSize pw)) else 0)"

definition score_of :: "real \<Rightarrow> nat" where
  "score_of b =
     (if b > 80 then 4
      else if b > 60 then 3
      else if b > 40 then 2
      else if b > 20 then 1
      else 0)"

definition labels :: "string list" where
  "labels = [''Very weak'', ''Weak'', ''Okay'', ''Strong'', ''Very strong'']"

definition labels_at :: "nat \<Rightarrow> string option" where
  \<comment> \<open>\<^verbatim>\<open>labels[score]\<close>\<close>
  "labels_at i = (if i < length labels then Some (labels ! i) else None)"

definition estimateStrength :: "string option \<Rightarrow> strength" where
  "estimateStrength pwo =
     (case pwo of
        None \<Rightarrow> \<lparr>score = 0, label = Some ''Too short''\<rparr>
      | Some pw \<Rightarrow>
          if pw = [] then \<lparr>score = 0, label = Some ''Too short''\<rparr>
          else let s = score_of (bits pw)
               in \<lparr>score = s, label = labels_at s\<rparr>)"

section \<open>The runtime of the page\<close>

text \<open>
  What a function of the script can observe besides its arguments: the values that
  \<^verbatim>\<open>Math.random\<close> returns, in order, with the number of calls made so far, and the
  values of the seven form controls. Each function run in a runtime returns the runtime
  it leaves behind and its result. The form controls are what \<^verbatim>\<open>getSettings\<close>
  reads; \<^verbatim>\<open>generatePassword\<close> draws from the random source, starting at the next call, and
  leaves the count of calls advanced by the draws it made; the body of
  \<^verbatim>\<open>estimateStrength\<close> calls neither \<^verbatim>\<open>Math.random\<close> nor reads or writes any
  control, so it leaves the runtime as it found it.
\<close>

record runtime =
  math_random :: random_source
  random_calls :: nat
  form_controls :: settings

definition generatePassword_run :: "runtime \<Rightarrow> settings \<Rightarrow> runtime \<times> string" where
  "generatePassword_run rt opts =
     (let rnd = (\<lambda>i. math_random rt (random_calls rt + i))
      in if length_opt opts \<le> 0 then (rt, '''')
         else if length (pools_of opts) = 0 then (rt, '''')
         else let st = generate_chars rnd opts
              in (rt\<lparr>random_calls := random_calls rt + fst st\<rparr>,
                  arr_join (arr_slice0 (snd st) (length_opt opts))))"


section \<open>Properties of the generator\<close>

subsection \<open>Random indices and reads\<close>

lemma random_index_bounds:
  assumes "random_ok rnd" and "0 < n"
  shows "0 \<le> random_index rnd k n" and "random_index rnd k n < int n"
proof -
  from assms(1) have r: "0 \<le> rnd k" "rnd k < 1"
    by (simp_all add: random_ok_def)
  from r(1) show "0 \<le> random_index rnd k n"
    by (simp add: random_index_def)
  from r(2) assms(2) have "rnd k * real n < real n" by simp
  then show "random_index rnd k n < int n"
    by (simp add: random_index_def floor_less_iff)
qed

lemma str_at_random:
  assumes "random_ok rnd" and "s \<noteq> []"
  shows "\<exists>c\<in>set s. str_at s (random_index rnd k (length s)) = Some c"
proof -
  from assms(2) have n: "0 < length s" by simp
  note b = random_index_bounds [OF assms(1) n, of k]
  from b have "nat (random_index rnd k (length s)) < length s" by simp
  then have "s ! nat (random_index rnd k (length s)) \<in> set s" by (rule nth_mem)
  with b show ?thesis by (simp add: str_at_def)
qed

subsection \<open>The alphabets\<close>

lemma pools_of_cases:
  "pool \<in> set (pools_of opts) \<Longrightarrow>
   pool = LOWER \<and> includeLower opts \<or> pool = UPPER \<and> includeUpper opts \<or>
   pool = NUMBERS \<and> includeNumbers opts \<or> pool = SYMBOLS \<and> includeSymbols opts"
  by (auto simp: pools_of_def split: if_splits)

lemma filtered_LOWER: "filter not_similar LOWER = ''abcdefghijkmnopqrstuvwxyz''"
  by (simp add: not_similar_def LOWER_def SIMILAR_def)

lemma filtered_UPPER: "filter not_similar UPPER = ''ABCDEFGHJKLMNPQRSTUVWXYZ''"
  by (simp add: not_similar_def UPPER_def SIMILAR_def)

lemma filtered_NUMBERS: "filter not_similar NUMBERS = ''23456789''"
  by (simp add: not_similar_def NUMBERS_def SIMILAR_def)

lemma filtered_SYMBOLS: "filter not_similar SYMBOLS = SYMBOLS"
  by (simp add: not_similar_def SYMBOLS_def SIMILAR_def)

lemma pool_str_nonempty:
  "pool \<in> set (pools_of opts) \<Longrightarrow> pool_str excl pool \<noteq> []"
  by (auto dest!: pools_of_cases
      simp: pool_str_def filtered_LOWER filtered_UPPER filtered_NUMBERS filtered_SYMBOLS)
    (simp_all add: LOWER_def UPPER_def NUMBERS_def SYMBOLS_def)

lemma set_fold_insert:
  "set (fold (\<lambda>ch s. if ch \<in> set s then s else s @ [ch]) xs acc) = set acc \<union> set xs"
  by (induction xs arbitrary: acc) auto

lemma set_set_from: "set (set_from xs) = set xs"
  by (simp add: set_from_def set_fold_insert)

lemma set_allowed_filtered:
  "set (allowed_filtered opts) =
     (if excludeSimilarChars opts
      then {c \<in> \<Union> (set ` set (pools_of opts)). not_similar c}
      else \<Union> (set ` set (pools_of opts)))"
  by (auto simp: allowed_filtered_def Let_def set_set_from)

lemma allowed_filtered_nonempty:
  assumes "pools_of opts \<noteq> []"
  shows "allowed_filtered opts \<noteq> []"
proof -
  from assms obtain pool where p: "pool \<in> set (pools_of opts)"
    by (cases "pools_of opts") auto
  then have "pool_str (excludeSimilarChars opts) pool \<noteq> []"
    by (rule pool_str_nonempty)
  then obtain c where c: "c \<in> set (pool_str (excludeSimilarChars opts) pool)"
    by (cases "pool_str (excludeSimilarChars opts) pool") auto
  with p have "c \<in> set (allowed_filtered opts)"
    by (auto simp: set_allowed_filtered pool_str_def split: if_splits)
  then show ?thesis by auto
qed

lemma allowed_of_filtered:
  "pools_of opts \<noteq> [] \<Longrightarrow> allowed_of opts = allowed_filtered opts"
  by (simp add: allowed_of_def Let_def allowed_filtered_nonempty)

subsection \<open>The seeding loop\<close>

lemma guarantee_loop_chars:
  assumes "random_ok rnd"
    and "\<forall>pool\<in>set ps. \<forall>c\<in>set (pool_str excl pool). P c"
    and "\<forall>v\<in>set pc. \<exists>c. v = Some c \<and> P c"
  shows "\<forall>v\<in>set (snd (guarantee_loop rnd excl ps (k, pc))). \<exists>c. v = Some c \<and> P c"
  using assms(2,3)
proof (induction ps arbitrary: k pc)
  case Nil
  then show ?case by simp
next
  case (Cons pool ps)
  show ?case
  proof (cases "pool_str excl pool = []")
    case True
    with Cons show ?thesis by simp
  next
    case False
    from str_at_random [OF assms(1) False, of k] obtain c
      where c: "c \<in> set (pool_str excl pool)"
        "str_at (pool_str excl pool) (random_index rnd k (length (pool_str excl pool))) = Some c"
      by auto
    with Cons.prems have "P c" by simp
    with Cons.prems c
    have "\<forall>v\<in>set (pc @ [Some c]). \<exists>c. v = Some c \<and> P c"
      by auto
    with Cons.prems
    have "\<forall>v\<in>set (snd (guarantee_loop rnd excl ps (Suc k, pc @ [Some c]))). \<exists>c. v = Some c \<and> P c"
      by (intro Cons.IH) simp_all
    with False c show ?thesis by (simp add: Let_def)
  qed
qed

lemma guarantee_loop_length:
  "length (snd (guarantee_loop rnd excl ps (k, pc))) \<le> length pc + length ps"
proof (induction ps arbitrary: k pc)
  case Nil
  then show ?case by simp
next
  case (Cons pool ps)
  show ?case
  proof (cases "pool_str excl pool = []")
    case True
    with Cons [of k pc] show ?thesis by simp
  next
    case False
    with Cons [of "Suc k" "pc @ [str_at (pool_str excl pool)
        (random_index rnd k (length (pool_str excl pool)))]"]
    show ?thesis by (simp add: Let_def)
  qed
qed

lemma guarantee_loop_keeps:
  "set pc \<subseteq> set (snd (guarantee_loop rnd excl ps (k, pc)))"
proof (induction ps arbitrary: k pc)
  case Nil
  then show ?case by simp
next
  case (Cons pool ps)
  show ?case
  proof (cases "pool_str excl pool = []")
    case True
    with Cons [of pc k] show ?thesis by simp
  next
    case False
    with Cons [of "pc @ [str_at (pool_str excl pool)
        (random_index rnd k (length (pool_str excl pool)))]" "Suc k"]
    show ?thesis by (simp add: Let_def)
  qed
qed

lemma guarantee_loop_seeds:
  assumes "random_ok rnd"
    and "pool \<in> set ps" and "pool_str excl pool \<noteq> []"
  shows "\<exists>c\<in>set (pool_str excl pool). Some c \<in> set (snd (guarantee_loop rnd excl ps (k, pc)))"
  using assms(2)
proof (induction ps arbitrary: k pc)
  case Nil
  then show ?case by simp
next
  case (Cons p ps)
  show ?case
  proof (cases "pool = p")
    case True
    from str_at_random [OF assms(1) assms(3), of k] obtain c
      where c: "c \<in> set (pool_str excl pool)"
        "str_at (pool_str excl pool) (random_index rnd k (length (pool_str excl pool))) = Some c"
      by auto
    have "set (pc @ [Some c]) \<subseteq> set (snd (guarantee_loop rnd excl ps (Suc k, pc @ [Some c])))"
      by (rule guarantee_loop_keeps)
    then have "Some c \<in> set (snd (guarantee_loop rnd excl ps (Suc k, pc @ [Some c])))"
      by auto
    with True assms(3) c show ?thesis by (auto simp: Let_def)
  next
    case False
    with Cons.prems have mem: "pool \<in> set ps" by simp
    show ?thesis
    proof (cases "pool_str excl p = []")
      case True
      with Cons.IH [OF mem, of k pc] show ?thesis by simp
    next
      case False
      with Cons.IH [OF mem, of "Suc k" "pc @ [str_at (pool_str excl p)
          (random_index rnd k (length (pool_str excl p)))]"]
      show ?thesis by (simp add: Let_def)
    qed
  qed
qed

subsection \<open>The filling loop\<close>

lemma fill_loop_step:
  "int (length pc) < len \<Longrightarrow>
   fill_loop rnd allowed len (k, pc) =
   fill_loop rnd allowed len
     (Suc k, pc @ [str_at allowed (random_index rnd k (length allowed))])"
  by (subst fill_loop.simps) simp

lemma fill_loop_done:
  "\<not> int (length pc) < len \<Longrightarrow> fill_loop rnd allowed len (k, pc) = (k, pc)"
  by (subst fill_loop.simps) simp

lemma fill_loop_chars:
  "random_ok rnd \<Longrightarrow> allowed \<noteq> [] \<Longrightarrow> \<forall>c\<in>set allowed. P c \<Longrightarrow>
   \<forall>v\<in>set (snd st). \<exists>c. v = Some c \<and> P c \<Longrightarrow>
   \<forall>v\<in>set (snd (fill_loop rnd allowed len st)). \<exists>c. v = Some c \<and> P c"
proof (induction rnd allowed len st rule: fill_loop.induct)
  case (1 rnd allowed len k pc)
  show ?case
  proof (cases "int (length pc) < len")
    case False
    with "1.prems" show ?thesis by (simp add: fill_loop_done)
  next
    case True
    from str_at_random [OF "1.prems"(1,2), of k] "1.prems"(3) obtain c
      where c: "P c" "str_at allowed (random_index rnd k (length allowed)) = Some c"
      by auto
    with "1.prems"(4) have "\<forall>v\<in>set (pc @ [Some c]). \<exists>c. v = Some c \<and> P c"
      by auto
    with "1.IH" [OF True "1.prems"(1,2,3)] c(2)
    have "\<forall>v\<in>set (snd (fill_loop rnd allowed len (Suc k, pc @ [Some c]))).
            \<exists>c. v = Some c \<and> P c"
      by simp
    with True c(2) show ?thesis by (simp add: fill_loop_step)
  qed
qed

lemma fill_loop_length:
  "int (length (snd (fill_loop rnd allowed len st))) = max (int (length (snd st))) len"
proof (induction rnd allowed len st rule: fill_loop.induct)
  case (1 rnd allowed len k pc)
  show ?case
  proof (cases "int (length pc) < len")
    case False
    then show ?thesis by (simp add: fill_loop_done)
  next
    case True
    with "1.IH" [OF True] show ?thesis by (simp add: fill_loop_step)
  qed
qed

lemma fill_loop_keeps:
  "set (snd st) \<subseteq> set (snd (fill_loop rnd allowed len st))"
proof (induction rnd allowed len st rule: fill_loop.induct)
  case (1 rnd allowed len k pc)
  show ?case
  proof (cases "int (length pc) < len")
    case False
    then show ?thesis by (simp add: fill_loop_done)
  next
    case True
    with "1.IH" [OF True] show ?thesis by (simp add: fill_loop_step)
  qed
qed

subsection \<open>The shuffle\<close>

lemma arr_swap_in_range:
  assumes "i < length a" and "0 \<le> j" and "j < int (length a)"
  shows "arr_swap a (int i) j = a[i := a ! nat j, nat j := a ! i]"
  using assms by (simp add: arr_swap_def arr_at_def arr_set_def Let_def)

lemma shuffle_loop_perm:
  "random_ok rnd \<Longrightarrow> i < length pc \<Longrightarrow>
   length (snd (shuffle_loop rnd i (k, pc))) = length pc \<and>
   set (snd (shuffle_loop rnd i (k, pc))) = set pc"
proof (induction i arbitrary: k pc)
  case 0
  then show ?case by simp
next
  case (Suc i)
  define j where "j = random_index rnd k (Suc i + 1)"
  from random_index_bounds [OF Suc.prems(1), of "Suc i + 1" k]
  have j: "0 \<le> j" "j < int (Suc i + 1)" by (simp_all add: j_def)
  with Suc.prems(2) have jl: "j < int (length pc)" "nat j < length pc" by simp_all
  define pc' where "pc' = pc[Suc i := pc ! nat j, nat j := pc ! Suc i]"
  have sw: "arr_swap pc (int (Suc i)) j = pc'"
    unfolding pc'_def using Suc.prems(2) j(1) jl(1) by (rule arr_swap_in_range)
  have l: "length pc' = length pc" by (simp add: pc'_def)
  have s: "set pc' = set pc"
    unfolding pc'_def using Suc.prems(2) jl(2) by (rule set_swap)
  from Suc.prems(2) l have "i < length pc'" by simp
  from Suc.IH [OF Suc.prems(1) this, of "Suc k"] l s sw
  show ?case by (simp add: j_def Let_def del: One_nat_def)
qed

subsection \<open>Slicing and joining\<close>

lemma arr_join_defined:
  "\<forall>v\<in>set a. \<exists>c. v = Some c \<and> P c \<Longrightarrow>
   length (arr_join a) = length a \<and> (\<forall>c\<in>set (arr_join a). P c)"
  by (induction a) (auto simp: arr_join_def)

lemma arr_join_mem: "Some c \<in> set a \<Longrightarrow> c \<in> set (arr_join a)"
  by (auto simp: arr_join_def intro!: bexI [of _ "Some c"])

lemma arr_slice0_pos: "0 < e \<Longrightarrow> arr_slice0 a e = take (nat e) a"
  by (simp add: arr_slice0_def)

subsection \<open>The array before the final slice\<close>

lemma pools_of_nonempty:
  "(pools_of opts \<noteq> []) =
   (includeLower opts \<or> includeUpper opts \<or> includeNumbers opts \<or> includeSymbols opts)"
  by (simp add: pools_of_def)

lemma length_pools_of:
  "length (pools_of opts) =
   (if includeLower opts then 1 else 0) + (if includeUpper opts then 1 else 0) +
   (if includeNumbers opts then 1 else 0) + (if includeSymbols opts then 1 else 0)"
  by (simp add: pools_of_def)

lemma generate_chars_split:
  assumes "st1 = (if guaranteeEachType opts
                  then guarantee_loop rnd (excludeSimilarChars opts) (pools_of opts) (0, [])
                  else (0, []))"
    and "st2 = fill_loop rnd (allowed_of opts) (length_opt opts) st1"
  shows "generate_chars rnd opts = shuffle_loop rnd (length (snd st2) - 1) (fst st2, snd st2)"
  using assms by (simp add: generate_chars_def Let_def)

lemma generate_chars_facts:
  assumes rnd: "random_ok rnd" and len: "0 < length_opt opts"
    and st1: "st1 = (if guaranteeEachType opts
                  then guarantee_loop rnd (excludeSimilarChars opts) (pools_of opts) (0, [])
                  else (0, []))"
  shows "int (length (snd (generate_chars rnd opts))) = max (int (length (snd st1))) (length_opt opts)"
    and "set (snd st1) \<subseteq> set (snd (generate_chars rnd opts))"
    and "set (snd (generate_chars rnd opts)) =
         set (snd (fill_loop rnd (allowed_of opts) (length_opt opts) st1))"
proof -
  define st2 where "st2 = fill_loop rnd (allowed_of opts) (length_opt opts) st1"
  have l2: "int (length (snd st2)) = max (int (length (snd st1))) (length_opt opts)"
    unfolding st2_def by (rule fill_loop_length)
  with len have "length (snd st2) - 1 < length (snd st2)" by simp
  from shuffle_loop_perm [OF rnd this, of "fst st2"]
  have sh: "length (snd (generate_chars rnd opts)) = length (snd st2)"
    "set (snd (generate_chars rnd opts)) = set (snd st2)"
    by (simp_all add: generate_chars_split [OF st1 st2_def])
  from sh(1) l2
  show "int (length (snd (generate_chars rnd opts))) = max (int (length (snd st1))) (length_opt opts)"
    by simp
  from sh(2)
  show "set (snd (generate_chars rnd opts)) =
         set (snd (fill_loop rnd (allowed_of opts) (length_opt opts) st1))"
    by (simp add: st2_def)
  have "set (snd st1) \<subseteq> set (snd st2)"
    unfolding st2_def by (rule fill_loop_keeps)
  with sh(2) show "set (snd st1) \<subseteq> set (snd (generate_chars rnd opts))" by simp
qed

lemma generate_chars_chars:
  assumes rnd: "random_ok rnd" and len: "0 < length_opt opts"
    and pools: "pools_of opts \<noteq> []"
    and al: "\<forall>c\<in>set (allowed_filtered opts). P c"
    and ps: "\<forall>pool\<in>set (pools_of opts). \<forall>c\<in>set (pool_str (excludeSimilarChars opts) pool). P c"
  shows "\<forall>v\<in>set (snd (generate_chars rnd opts)). \<exists>c. v = Some c \<and> P c"
proof -
  define st1 where "st1 = (if guaranteeEachType opts
                  then guarantee_loop rnd (excludeSimilarChars opts) (pools_of opts) (0, [])
                  else (0, []))"
  have "\<forall>v\<in>set (snd (guarantee_loop rnd (excludeSimilarChars opts) (pools_of opts) (0, []))).
          \<exists>c. v = Some c \<and> P c"
    using rnd ps by (rule guarantee_loop_chars) simp
  then have s1: "\<forall>v\<in>set (snd st1). \<exists>c. v = Some c \<and> P c"
    by (simp add: st1_def)
  have ne: "allowed_of opts \<noteq> []" and al': "\<forall>c\<in>set (allowed_of opts). P c"
    using pools al by (simp_all add: allowed_of_filtered allowed_filtered_nonempty)
  have "\<forall>v\<in>set (snd (fill_loop rnd (allowed_of opts) (length_opt opts) st1)).
          \<exists>c. v = Some c \<and> P c"
    using rnd ne al' s1 by (rule fill_loop_chars)
  with generate_chars_facts(3) [OF rnd len st1_def] show ?thesis by simp
qed

lemma generatePassword_unfold:
  "0 < length_opt opts \<Longrightarrow> pools_of opts \<noteq> [] \<Longrightarrow>
   generatePassword rnd opts =
     arr_join (take (nat (length_opt opts)) (snd (generate_chars rnd opts)))"
  by (simp add: generatePassword_def arr_slice0_pos)

lemma generatePassword_chars:
  assumes rnd: "random_ok rnd" and len: "0 < length_opt opts"
    and pools: "pools_of opts \<noteq> []"
    and al: "\<forall>c\<in>set (allowed_filtered opts). P c"
    and ps: "\<forall>pool\<in>set (pools_of opts). \<forall>c\<in>set (pool_str (excludeSimilarChars opts) pool). P c"
  shows "int (length (generatePassword rnd opts)) = length_opt opts"
    and "\<forall>c\<in>set (generatePassword rnd opts). P c"
proof -
  define a where "a = snd (generate_chars rnd opts)"
  have d: "\<forall>v\<in>set a. \<exists>c. v = Some c \<and> P c"
    unfolding a_def using assms by (rule generate_chars_chars)
  then have "\<forall>v\<in>set (take (nat (length_opt opts)) a). \<exists>c. v = Some c \<and> P c"
    by (auto dest: in_set_takeD)
  from arr_join_defined [OF this]
  have j: "length (arr_join (take (nat (length_opt opts)) a)) = length (take (nat (length_opt opts)) a)"
    "\<forall>c\<in>set (arr_join (take (nat (length_opt opts)) a)). P c"
    by simp_all
  from generate_chars_facts(1) [OF rnd len refl]
  have "length_opt opts \<le> int (length a)" by (simp add: a_def)
  with len j(1) show "int (length (generatePassword rnd opts)) = length_opt opts"
    by (simp add: generatePassword_unfold [OF len pools] a_def [symmetric])
  from j(2) show "\<forall>c\<in>set (generatePassword rnd opts). P c"
    by (simp add: generatePassword_unfold [OF len pools] a_def [symmetric])
qed

lemma generatePassword_seeds:
  assumes rnd: "random_ok rnd" and g: "guaranteeEachType opts"
    and cnt: "int (length (pools_of opts)) \<le> length_opt opts"
    and pool: "pool \<in> set (pools_of opts)"
  shows "\<exists>c\<in>set (pool_str (excludeSimilarChars opts) pool). c \<in> set (generatePassword rnd opts)"
proof -
  from pool have pools: "pools_of opts \<noteq> []" by auto
  with cnt have len: "0 < length_opt opts" by (cases "pools_of opts") auto
  define st1 where "st1 = (if guaranteeEachType opts
                  then guarantee_loop rnd (excludeSimilarChars opts) (pools_of opts) (0, [])
                  else (0, []))"
  define a where "a = snd (generate_chars rnd opts)"
  have "length (snd st1) \<le> length (pools_of opts)"
    using guarantee_loop_length [of rnd "excludeSimilarChars opts" "pools_of opts" 0 "[]"]
    by (simp add: st1_def)
  with cnt generate_chars_facts(1) [OF rnd len st1_def]
  have "int (length a) = length_opt opts" by (simp add: a_def)
  then have tk: "take (nat (length_opt opts)) a = a" by simp
  from pool have "pool_str (excludeSimilarChars opts) pool \<noteq> []"
    by (rule pool_str_nonempty)
  from guarantee_loop_seeds [OF rnd pool this, of 0 "[]"] g
  obtain c where c: "c \<in> set (pool_str (excludeSimilarChars opts) pool)" "Some c \<in> set (snd st1)"
    by (auto simp: st1_def)
  from c(2) generate_chars_facts(2) [OF rnd len st1_def] have "Some c \<in> set a"
    by (auto simp: a_def)
  then have "c \<in> set (arr_join a)" by (rule arr_join_mem)
  with c(1) tk show ?thesis
    by (auto simp: generatePassword_unfold [OF len pools] a_def [symmetric])
qed

subsection \<open>The claims about the generator\<close>

text \<open>
  Claim C1. For settings with a positive length and at least one class enabled, and a
  random source that keeps the contract of \<^verbatim>\<open>Math.random\<close>, the password has exactly
  the requested length. Nothing is assumed about \<open>guaranteeEachType\<close> or about the
  number of enabled classes, so the settings where more classes are enabled than the
  length allows are covered: the final slice cuts the array to the length.
\<close>

theorem generatePassword_length:
  assumes "random_ok rnd" and "0 < length_opt opts"
    and "includeLower opts \<or> includeUpper opts \<or> includeNumbers opts \<or> includeSymbols opts"
  shows "int (length (generatePassword rnd opts)) = length_opt opts"
proof -
  from assms(3) have "pools_of opts \<noteq> []" by (simp add: pools_of_nonempty)
  with assms(1,2) show ?thesis
    by (rule generatePassword_chars(1) [where P = "\<lambda>c. True"]) simp_all
qed

theorem generatePassword_length_witness:
  "random_ok (\<lambda>k. 1 / 2) \<and>
   generatePassword (\<lambda>k. 1 / 2)
     \<lparr>length_opt = 2, includeLower = True, includeUpper = True, includeNumbers = True,
      includeSymbols = True, excludeSimilarChars = True, guaranteeEachType = True\<rparr> = ''n+'' \<and>
   int (length (generatePassword (\<lambda>k. 1 / 2)
     \<lparr>length_opt = 2, includeLower = True, includeUpper = True, includeNumbers = True,
      includeSymbols = True, excludeSimilarChars = True, guaranteeEachType = True\<rparr>)) = 2"
proof -
  have r: "random_ok (\<lambda>k. 1 / 2)"
    by (simp add: random_ok_def)
  have v: "generatePassword (\<lambda>k. 1 / 2)
     \<lparr>length_opt = 2, includeLower = True, includeUpper = True, includeNumbers = True,
      includeSymbols = True, excludeSimilarChars = True, guaranteeEachType = True\<rparr> = ''n+''"
    by code_simp
  have "int (length (generatePassword (\<lambda>k. 1 / 2)
     \<lparr>length_opt = 2, includeLower = True, includeUpper = True, includeNumbers = True,
      includeSymbols = True, excludeSimilarChars = True, guaranteeEachType = True\<rparr>)) = 2"
    using generatePassword_length [OF r, of
      "\<lparr>length_opt = 2, includeLower = True, includeUpper = True, includeNumbers = True,
        includeSymbols = True, excludeSimilarChars = True, guaranteeEachType = True\<rparr>"]
    by simp
  with r v show ?thesis by (intro conjI)
qed

text \<open>
  Claim C2. With \<open>guaranteeEachType\<close> set and no more classes enabled than the length,
  the password contains, for each enabled class, a character of that class's alphabet,
  and one outside the similar characters when \<open>excludeSimilarChars\<close> is set.
\<close>

theorem generatePassword_guarantee:
  assumes "random_ok rnd" and "guaranteeEachType opts"
    and "(if includeLower opts then 1 else 0) + (if includeUpper opts then 1 else 0) +
         (if includeNumbers opts then 1 else 0) + (if includeSymbols opts then 1 else 0)
         \<le> length_opt opts"
  shows "(includeLower opts \<longrightarrow>
            (\<exists>c\<in>set (generatePassword rnd opts).
               c \<in> set LOWER \<and> (excludeSimilarChars opts \<longrightarrow> c \<notin> set SIMILAR))) \<and>
         (includeUpper opts \<longrightarrow>
            (\<exists>c\<in>set (generatePassword rnd opts).
               c \<in> set UPPER \<and> (excludeSimilarChars opts \<longrightarrow> c \<notin> set SIMILAR))) \<and>
         (includeNumbers opts \<longrightarrow>
            (\<exists>c\<in>set (generatePassword rnd opts).
               c \<in> set NUMBERS \<and> (excludeSimilarChars opts \<longrightarrow> c \<notin> set SIMILAR))) \<and>
         (includeSymbols opts \<longrightarrow>
            (\<exists>c\<in>set (generatePassword rnd opts).
               c \<in> set SYMBOLS \<and> (excludeSimilarChars opts \<longrightarrow> c \<notin> set SIMILAR)))"
proof -
  from assms(3) have cnt: "int (length (pools_of opts)) \<le> length_opt opts"
    by (simp add: length_pools_of split: if_splits)
  have seed: "\<exists>c\<in>set (generatePassword rnd opts).
                 c \<in> set pool \<and> (excludeSimilarChars opts \<longrightarrow> c \<notin> set SIMILAR)"
    if "pool \<in> set (pools_of opts)" for pool
    using generatePassword_seeds [OF assms(1,2) cnt that]
    by (auto simp: pool_str_def not_similar_def split: if_splits)
  have "includeLower opts \<Longrightarrow> LOWER \<in> set (pools_of opts)"
    and "includeUpper opts \<Longrightarrow> UPPER \<in> set (pools_of opts)"
    and "includeNumbers opts \<Longrightarrow> NUMBERS \<in> set (pools_of opts)"
    and "includeSymbols opts \<Longrightarrow> SYMBOLS \<in> set (pools_of opts)"
    by (simp_all add: pools_of_def)
  then show ?thesis by (intro conjI impI seed)
qed

theorem generatePassword_guarantee_witness:
  "generatePassword (\<lambda>k. 1 / 2)
       \<lparr>length_opt = 4, includeLower = True, includeUpper = True, includeNumbers = True,
        includeSymbols = True, excludeSimilarChars = True, guaranteeEachType = True\<rparr>
     = ''n+N6'' \<and>
   (\<exists>c\<in>set (generatePassword (\<lambda>k. 1 / 2)
       \<lparr>length_opt = 4, includeLower = True, includeUpper = True, includeNumbers = True,
        includeSymbols = True, excludeSimilarChars = True, guaranteeEachType = True\<rparr>).
      c \<in> set NUMBERS \<and> c \<notin> set SIMILAR) \<and>
   (\<exists>c\<in>set (generatePassword (\<lambda>k. 1 / 2)
       \<lparr>length_opt = 4, includeLower = True, includeUpper = True, includeNumbers = True,
        includeSymbols = True, excludeSimilarChars = True, guaranteeEachType = True\<rparr>).
      c \<in> set UPPER \<and> c \<notin> set SIMILAR)"
proof -
  have r: "random_ok (\<lambda>k. 1 / 2)"
    by (simp add: random_ok_def)
  have v: "generatePassword (\<lambda>k. 1 / 2)
       \<lparr>length_opt = 4, includeLower = True, includeUpper = True, includeNumbers = True,
        includeSymbols = True, excludeSimilarChars = True, guaranteeEachType = True\<rparr>
     = ''n+N6''"
    by code_simp
  from generatePassword_guarantee [OF r, of
      "\<lparr>length_opt = 4, includeLower = True, includeUpper = True, includeNumbers = True,
        includeSymbols = True, excludeSimilarChars = True, guaranteeEachType = True\<rparr>"]
  have "(\<exists>c\<in>set (generatePassword (\<lambda>k. 1 / 2)
       \<lparr>length_opt = 4, includeLower = True, includeUpper = True, includeNumbers = True,
        includeSymbols = True, excludeSimilarChars = True, guaranteeEachType = True\<rparr>).
      c \<in> set NUMBERS \<and> c \<notin> set SIMILAR)"
    and "(\<exists>c\<in>set (generatePassword (\<lambda>k. 1 / 2)
       \<lparr>length_opt = 4, includeLower = True, includeUpper = True, includeNumbers = True,
        includeSymbols = True, excludeSimilarChars = True, guaranteeEachType = True\<rparr>).
      c \<in> set UPPER \<and> c \<notin> set SIMILAR)"
    by simp_all
  with v show ?thesis by (intro conjI)
qed

text \<open>
  Claim C3. A length of zero or less, and settings with all four class flags off, give
  the empty string, for any random source at all; the model has no failing branch on
  these paths, which return before any character is drawn.
\<close>

theorem generatePassword_empty:
  assumes "length_opt opts \<le> 0 \<or>
           (\<not> includeLower opts \<and> \<not> includeUpper opts \<and>
            \<not> includeNumbers opts \<and> \<not> includeSymbols opts)"
  shows "generatePassword rnd opts = ''''"
  using assms by (auto simp: generatePassword_def pools_of_def)

theorem generatePassword_empty_witness:
  "generatePassword (\<lambda>k. 1 / 2)
     \<lparr>length_opt = - 3, includeLower = True, includeUpper = False, includeNumbers = True,
      includeSymbols = False, excludeSimilarChars = False, guaranteeEachType = True\<rparr> = '''' \<and>
   generatePassword (\<lambda>k. 1 / 2)
     \<lparr>length_opt = 8, includeLower = False, includeUpper = False, includeNumbers = False,
      includeSymbols = False, excludeSimilarChars = True, guaranteeEachType = True\<rparr> = ''''"
proof -
  have "generatePassword (\<lambda>k. 1 / 2)
     \<lparr>length_opt = - 3, includeLower = True, includeUpper = False, includeNumbers = True,
      includeSymbols = False, excludeSimilarChars = False, guaranteeEachType = True\<rparr> = ''''"
    by (rule generatePassword_empty) simp
  moreover have "generatePassword (\<lambda>k. 1 / 2)
     \<lparr>length_opt = 8, includeLower = False, includeUpper = False, includeNumbers = False,
      includeSymbols = False, excludeSimilarChars = True, guaranteeEachType = True\<rparr> = ''''"
    by (rule generatePassword_empty) simp
  ultimately show ?thesis by simp
qed

text \<open>
  Claim C4. With \<open>excludeSimilarChars\<close> set, no character of the password is one of
  the nine similar characters: the pool that fills the password and the pools that seed
  it are both filtered. The filtered alphabet of every class is non-empty (claim C10),
  so that condition of the claim holds of all settings and is no hypothesis here.
\<close>

theorem generatePassword_no_similar:
  assumes "random_ok rnd" and "excludeSimilarChars opts" and "0 < length_opt opts"
    and "includeLower opts \<or> includeUpper opts \<or> includeNumbers opts \<or> includeSymbols opts"
  shows "\<forall>c\<in>set (generatePassword rnd opts).
           c \<notin> {CHR ''0'', CHR ''O'', CHR ''1'', CHR ''l'', CHR ''I'', CHR ''|'',
                CHR 0x60, CHR 0x27, CHR 0x22}"
proof -
  from assms(4) have pools: "pools_of opts \<noteq> []" by (simp add: pools_of_nonempty)
  have "\<forall>c\<in>set (generatePassword rnd opts). not_similar c"
    using assms(1,3) pools
  proof (rule generatePassword_chars(2))
    show "\<forall>c\<in>set (allowed_filtered opts). not_similar c"
      using assms(2) by (simp add: set_allowed_filtered)
    show "\<forall>pool\<in>set (pools_of opts).
            \<forall>c\<in>set (pool_str (excludeSimilarChars opts) pool). not_similar c"
      using assms(2) by (simp add: pool_str_def)
  qed
  then show ?thesis by (simp add: not_similar_def SIMILAR_def)
qed

theorem generatePassword_no_similar_witness:
  "generatePassword (\<lambda>k. real (k mod 5) / 5)
       \<lparr>length_opt = 16, includeLower = True, includeUpper = True, includeNumbers = True,
        includeSymbols = False, excludeSimilarChars = True, guaranteeEachType = True\<rparr>
     = ''KxaWxEmWaW5aaKmK'' \<and>
   set (generatePassword (\<lambda>k. real (k mod 5) / 5)
       \<lparr>length_opt = 16, includeLower = True, includeUpper = True, includeNumbers = True,
        includeSymbols = False, excludeSimilarChars = True, guaranteeEachType = True\<rparr>) \<inter>
     {CHR ''0'', CHR ''O'', CHR ''1'', CHR ''l'', CHR ''I'', CHR ''|'',
      CHR 0x60, CHR 0x27, CHR 0x22} = {}"
proof -
  have r: "random_ok (\<lambda>k. real (k mod 5) / 5)"
    by (simp add: random_ok_def)
  have v: "generatePassword (\<lambda>k. real (k mod 5) / 5)
       \<lparr>length_opt = 16, includeLower = True, includeUpper = True, includeNumbers = True,
        includeSymbols = False, excludeSimilarChars = True, guaranteeEachType = True\<rparr>
     = ''KxaWxEmWaW5aaKmK''"
    by code_simp
  have "\<forall>c\<in>set (generatePassword (\<lambda>k. real (k mod 5) / 5)
       \<lparr>length_opt = 16, includeLower = True, includeUpper = True, includeNumbers = True,
        includeSymbols = False, excludeSimilarChars = True, guaranteeEachType = True\<rparr>).
     c \<notin> {CHR ''0'', CHR ''O'', CHR ''1'', CHR ''l'', CHR ''I'', CHR ''|'',
          CHR 0x60, CHR 0x27, CHR 0x22}"
    by (rule generatePassword_no_similar [OF r]) simp_all
  then have "set (generatePassword (\<lambda>k. real (k mod 5) / 5)
       \<lparr>length_opt = 16, includeLower = True, includeUpper = True, includeNumbers = True,
        includeSymbols = False, excludeSimilarChars = True, guaranteeEachType = True\<rparr>) \<inter>
     {CHR ''0'', CHR ''O'', CHR ''1'', CHR ''l'', CHR ''I'', CHR ''|'',
      CHR 0x60, CHR 0x27, CHR 0x22} = {}"
    by blast
  with v show ?thesis by (intro conjI)
qed

text \<open>
  Claim C9. For settings with a positive length and at least one class enabled, every
  character of the password is in the alphabet of an enabled class. With only
  \<open>includeLower\<close> enabled and length 12 the password has 12 characters, all of them of
  \<open>a\<close> to \<open>z\<close>, whatever the two remaining flags are.
\<close>

theorem generatePassword_alphabet:
  assumes "random_ok rnd"
  shows "(0 < length_opt opts \<and>
          (includeLower opts \<or> includeUpper opts \<or> includeNumbers opts \<or> includeSymbols opts) \<longrightarrow>
          (\<forall>c\<in>set (generatePassword rnd opts).
             includeLower opts \<and> c \<in> set LOWER \<or> includeUpper opts \<and> c \<in> set UPPER \<or>
             includeNumbers opts \<and> c \<in> set NUMBERS \<or> includeSymbols opts \<and> c \<in> set SYMBOLS)) \<and>
         (length_opt opts = 12 \<and> includeLower opts \<and> \<not> includeUpper opts \<and>
          \<not> includeNumbers opts \<and> \<not> includeSymbols opts \<longrightarrow>
          length (generatePassword rnd opts) = 12 \<and>
          (\<forall>c\<in>set (generatePassword rnd opts). c \<in> set ''abcdefghijklmnopqrstuvwxyz''))"
proof -
  let ?P = "\<lambda>c. includeLower opts \<and> c \<in> set LOWER \<or> includeUpper opts \<and> c \<in> set UPPER \<or>
             includeNumbers opts \<and> c \<in> set NUMBERS \<or> includeSymbols opts \<and> c \<in> set SYMBOLS"
  have in_pool: "?P c" if "pool \<in> set (pools_of opts)" and "c \<in> set pool" for pool c
    using pools_of_cases [OF that(1)] that(2) by auto
  have gen: "int (length (generatePassword rnd opts)) = length_opt opts \<and>
             (\<forall>c\<in>set (generatePassword rnd opts). ?P c)"
    if len: "0 < length_opt opts"
      and cls: "includeLower opts \<or> includeUpper opts \<or> includeNumbers opts \<or> includeSymbols opts"
  proof -
    from cls have pools: "pools_of opts \<noteq> []" by (simp add: pools_of_nonempty)
    have al: "\<forall>c\<in>set (allowed_filtered opts). ?P c"
      using in_pool by (auto simp: set_allowed_filtered split: if_splits)
    have ps: "\<forall>pool\<in>set (pools_of opts).
                \<forall>c\<in>set (pool_str (excludeSimilarChars opts) pool). ?P c"
      using in_pool by (auto simp: pool_str_def split: if_splits)
    from generatePassword_chars [where P = ?P, OF assms len pools al ps]
    show ?thesis by simp
  qed
  have first: "0 < length_opt opts \<and>
          (includeLower opts \<or> includeUpper opts \<or> includeNumbers opts \<or> includeSymbols opts) \<longrightarrow>
          (\<forall>c\<in>set (generatePassword rnd opts). ?P c)"
    using gen by blast
  have second: "length_opt opts = 12 \<and> includeLower opts \<and> \<not> includeUpper opts \<and>
          \<not> includeNumbers opts \<and> \<not> includeSymbols opts \<longrightarrow>
          length (generatePassword rnd opts) = 12 \<and>
          (\<forall>c\<in>set (generatePassword rnd opts). c \<in> set ''abcdefghijklmnopqrstuvwxyz'')"
  proof
    assume a: "length_opt opts = 12 \<and> includeLower opts \<and> \<not> includeUpper opts \<and>
          \<not> includeNumbers opts \<and> \<not> includeSymbols opts"
    then have "0 < length_opt opts"
      and "includeLower opts \<or> includeUpper opts \<or> includeNumbers opts \<or> includeSymbols opts"
      by simp_all
    from gen [OF this] a
    have "int (length (generatePassword rnd opts)) = 12"
      and "\<forall>c\<in>set (generatePassword rnd opts). c \<in> set LOWER"
      by simp_all
    then show "length (generatePassword rnd opts) = 12 \<and>
          (\<forall>c\<in>set (generatePassword rnd opts). c \<in> set ''abcdefghijklmnopqrstuvwxyz'')"
      unfolding LOWER_def by simp
  qed
  from first second show ?thesis by (rule conjI)
qed

theorem generatePassword_alphabet_witness:
  "generatePassword (\<lambda>k. real (k mod 9) / 9)
     \<lparr>length_opt = 12, includeLower = True, includeUpper = False, includeNumbers = False,
      includeSymbols = False, excludeSimilarChars = False, guaranteeEachType = False\<rparr>
     = ''ficcaauxrofl'' \<and>
   length (generatePassword (\<lambda>k. real (k mod 9) / 9)
     \<lparr>length_opt = 12, includeLower = True, includeUpper = False, includeNumbers = False,
      includeSymbols = False, excludeSimilarChars = False, guaranteeEachType = False\<rparr>) = 12 \<and>
   set (generatePassword (\<lambda>k. real (k mod 9) / 9)
     \<lparr>length_opt = 12, includeLower = True, includeUpper = False, includeNumbers = False,
      includeSymbols = False, excludeSimilarChars = False, guaranteeEachType = False\<rparr>)
     \<subseteq> set ''abcdefghijklmnopqrstuvwxyz''"
proof -
  have r: "random_ok (\<lambda>k. real (k mod 9) / 9)"
    by (simp add: random_ok_def)
  have v: "generatePassword (\<lambda>k. real (k mod 9) / 9)
     \<lparr>length_opt = 12, includeLower = True, includeUpper = False, includeNumbers = False,
      includeSymbols = False, excludeSimilarChars = False, guaranteeEachType = False\<rparr>
     = ''ficcaauxrofl''"
    by code_simp
  from generatePassword_alphabet [OF r, of
     "\<lparr>length_opt = 12, includeLower = True, includeUpper = False, includeNumbers = False,
      includeSymbols = False, excludeSimilarChars = False, guaranteeEachType = False\<rparr>"]
  have "length (generatePassword (\<lambda>k. real (k mod 9) / 9)
     \<lparr>length_opt = 12, includeLower = True, includeUpper = False, includeNumbers = False,
      includeSymbols = False, excludeSimilarChars = False, guaranteeEachType = False\<rparr>) = 12"
   and "\<forall>c\<in>set (generatePassword (\<lambda>k. real (k mod 9) / 9)
     \<lparr>length_opt = 12, includeLower = True, includeUpper = False, includeNumbers = False,
      includeSymbols = False, excludeSimilarChars = False, guaranteeEachType = False\<rparr>).
      c \<in> set ''abcdefghijklmnopqrstuvwxyz''"
    by simp_all
  with v show ?thesis by (intro conjI subsetI) blast+
qed

text \<open>
  Claim C10. Each of the four alphabets has a character outside the similar
  characters; so with at least one class enabled the filtered pool is non-empty, the
  test of the fallback is false and \<open>allowed\<close> stays the filtered pool.
\<close>

theorem fallback_unreachable:
  "(\<exists>c\<in>set LOWER. c \<notin> set SIMILAR) \<and> (\<exists>c\<in>set UPPER. c \<notin> set SIMILAR) \<and>
   (\<exists>c\<in>set NUMBERS. c \<notin> set SIMILAR) \<and> (\<exists>c\<in>set SYMBOLS. c \<notin> set SIMILAR) \<and>
   (includeLower opts \<or> includeUpper opts \<or> includeNumbers opts \<or> includeSymbols opts \<longrightarrow>
      length (allowed_filtered opts) \<noteq> 0 \<and> allowed_of opts = allowed_filtered opts)"
proof -
  have "CHR ''a'' \<in> set LOWER \<and> CHR ''a'' \<notin> set SIMILAR"
    by (simp add: LOWER_def SIMILAR_def)
  moreover have "CHR ''A'' \<in> set UPPER \<and> CHR ''A'' \<notin> set SIMILAR"
    by (simp add: UPPER_def SIMILAR_def)
  moreover have "CHR ''2'' \<in> set NUMBERS \<and> CHR ''2'' \<notin> set SIMILAR"
    by (simp add: NUMBERS_def SIMILAR_def)
  moreover have "CHR ''!'' \<in> set SYMBOLS \<and> CHR ''!'' \<notin> set SIMILAR"
    by (simp add: SYMBOLS_def SIMILAR_def)
  ultimately have "(\<exists>c\<in>set LOWER. c \<notin> set SIMILAR)" "(\<exists>c\<in>set UPPER. c \<notin> set SIMILAR)"
    "(\<exists>c\<in>set NUMBERS. c \<notin> set SIMILAR)" "(\<exists>c\<in>set SYMBOLS. c \<notin> set SIMILAR)"
    by blast+
  moreover have "includeLower opts \<or> includeUpper opts \<or> includeNumbers opts \<or> includeSymbols opts \<longrightarrow>
      length (allowed_filtered opts) \<noteq> 0 \<and> allowed_of opts = allowed_filtered opts"
    by (simp add: pools_of_nonempty [symmetric] allowed_filtered_nonempty allowed_of_filtered)
  ultimately show ?thesis by simp
qed

theorem fallback_unreachable_witness:
  "length (allowed_filtered
     \<lparr>length_opt = 8, includeLower = False, includeUpper = False, includeNumbers = True,
      includeSymbols = False, excludeSimilarChars = True, guaranteeEachType = False\<rparr>) \<noteq> 0 \<and>
   allowed_of
     \<lparr>length_opt = 8, includeLower = False, includeUpper = False, includeNumbers = True,
      includeSymbols = False, excludeSimilarChars = True, guaranteeEachType = False\<rparr> =
   allowed_filtered
     \<lparr>length_opt = 8, includeLower = False, includeUpper = False, includeNumbers = True,
      includeSymbols = False, excludeSimilarChars = True, guaranteeEachType = False\<rparr>"
  using fallback_unreachable [of
     "\<lparr>length_opt = 8, includeLower = False, includeUpper = False, includeNumbers = True,
      includeSymbols = False, excludeSimilarChars = True, guaranteeEachType = False\<rparr>"]
  by simp

section \<open>Properties of the strength estimator\<close>

subsection \<open>The character classes\<close>

lemma of_char_mem: "(c \<in> set s) = ((of_char c :: nat) \<in> of_char ` set s)"
  by (auto simp: image_iff)

lemma lower_class: "char_range CHR ''a'' CHR ''z'' c = (c \<in> set LOWER)"
  unfolding char_range_def LOWER_def of_char_mem [of c] by (simp; arith)

lemma upper_class: "char_range CHR ''A'' CHR ''Z'' c = (c \<in> set UPPER)"
  unfolding char_range_def UPPER_def of_char_mem [of c] by (simp; arith)

lemma digit_class: "char_range CHR ''0'' CHR ''9'' c = (c \<in> set NUMBERS)"
  unfolding char_range_def NUMBERS_def of_char_mem [of c] by (simp; arith)

lemma symbol_class_eq: "symbol_class c = (c \<in> set SYMBOLS)"
  by (simp add: symbol_class_def SYMBOLS_def)

lemma regex_test_set: "regex_test cls pw = (\<exists>c\<in>set pw. cls c)"
  by (simp add: regex_test_def list_ex_iff)

lemma poolSize_classes:
  "poolSize pw =
     (if \<exists>c\<in>set pw. c \<in> set LOWER then 26 else 0) +
     (if \<exists>c\<in>set pw. c \<in> set UPPER then 26 else 0) +
     (if \<exists>c\<in>set pw. c \<in> set NUMBERS then 10 else 0) +
     (if \<exists>c\<in>set pw. c \<in> set SYMBOLS then 32 else 0)"
  by (simp add: poolSize_def regex_test_set lower_class upper_class digit_class
      symbol_class_eq)

subsection \<open>Thresholds on the logarithm, as comparisons of powers\<close>

lemma bits_gt:
  assumes "0 < p"
  shows "(real t < real n * log 2 (real p)) = (2 ^ t < p ^ n)"
proof -
  have "real n * log 2 (real p) = log 2 (real p ^ n)"
    using assms by (simp add: log_nat_power)
  moreover have "0 < real p ^ n" using assms by simp
  ultimately have "(real t < real n * log 2 (real p)) = (2 powr real t < real p ^ n)"
    by (simp add: less_log_iff)
  also have "\<dots> = ((2::real) ^ t < real p ^ n)"
    by (simp add: powr_realpow)
  also have "\<dots> = (real (2 ^ t) < real (p ^ n))" by simp
  also have "\<dots> = (2 ^ t < p ^ n)" by (rule of_nat_less_iff)
  finally show ?thesis .
qed

lemma score_of_bits:
  "score_of (bits pw) =
     (let p = poolSize pw; n = length pw
      in if p = 0 then 0
         else if 2 ^ 80 < p ^ n then 4
         else if 2 ^ 60 < p ^ n then 3
         else if 2 ^ 40 < p ^ n then 2
         else if 2 ^ 20 < p ^ n then 1
         else 0)"
proof (cases "poolSize pw = 0")
  case True
  then show ?thesis by (simp add: score_of_def bits_def)
next
  case False
  then have p: "0 < poolSize pw" by simp
  have "(80 < bits pw) = (2 ^ 80 < poolSize pw ^ length pw)"
    using bits_gt [OF p, of 80 "length pw"] p by (simp add: bits_def)
  moreover have "(60 < bits pw) = (2 ^ 60 < poolSize pw ^ length pw)"
    using bits_gt [OF p, of 60 "length pw"] p by (simp add: bits_def)
  moreover have "(40 < bits pw) = (2 ^ 40 < poolSize pw ^ length pw)"
    using bits_gt [OF p, of 40 "length pw"] p by (simp add: bits_def)
  moreover have "(20 < bits pw) = (2 ^ 20 < poolSize pw ^ length pw)"
    using bits_gt [OF p, of 20 "length pw"] p by (simp add: bits_def)
  ultimately show ?thesis using False
    by (simp add: score_of_def Let_def)
qed

lemma score_of_le: "score_of b \<le> 4"
  by (simp add: score_of_def)

lemma labels_at_score: "s \<le> 4 \<Longrightarrow> labels_at s = Some (labels ! s)"
  by (simp add: labels_at_def labels_def)

lemma estimateStrength_nonempty:
  "pw \<noteq> [] \<Longrightarrow>
   estimateStrength (Some pw) =
     \<lparr>score = score_of (bits pw), label = Some (labels ! score_of (bits pw))\<rparr>"
  by (simp add: estimateStrength_def Let_def labels_at_score score_of_le)

lemma poolSize_a12: "poolSize ''aaaaaaaaaaaa'' = 26"
  by (simp add: poolSize_def regex_test_def char_range_def symbol_class_def)

lemma poolSize_mixed12: "poolSize ''aA1!aA1!aA1!'' = 94"
  by (simp add: poolSize_def regex_test_def char_range_def symbol_class_def)

subsection \<open>The claims about the estimator\<close>

text \<open>
  Claim C5. For a non-empty password the pool size is the sum of 26 for a lower-case
  letter, 26 for an upper-case letter, 10 for a digit and 32 for a symbol of the fixed
  set, each counted when the password has such a character; the bits are the length
  times the logarithm to base 2 of the pool size, and 0 for pool size 0; the score
  follows the thresholds 80, 60, 40 and 20, and the label is the entry of the list at
  the score. Twelve times \<open>a\<close> scores 2, "Okay"; \<open>aA1!aA1!aA1!\<close> scores 3, "Strong".
\<close>

theorem estimateStrength_formula:
  "(\<forall>pw. pw \<noteq> [] \<longrightarrow>
     (let p = (if \<exists>c\<in>set pw. c \<in> set LOWER then 26 else 0) +
              (if \<exists>c\<in>set pw. c \<in> set UPPER then 26 else 0) +
              (if \<exists>c\<in>set pw. c \<in> set NUMBERS then 10 else 0) +
              (if \<exists>c\<in>set pw. c \<in> set SYMBOLS then 32 else (0::nat));
          b = (if p = 0 then 0 else real (length pw) * log 2 (real p));
          s = (if b > 80 then 4 else if b > 60 then 3 else if b > 40 then 2
               else if b > 20 then 1 else (0::nat))
      in poolSize pw = p \<and> bits pw = b \<and>
         estimateStrength (Some pw) =
           \<lparr>score = s,
            label = Some ([''Very weak'', ''Weak'', ''Okay'', ''Strong'', ''Very strong''] ! s)\<rparr>))
   \<and> estimateStrength (Some ''aaaaaaaaaaaa'') = \<lparr>score = 2, label = Some ''Okay''\<rparr>
   \<and> estimateStrength (Some ''aA1!aA1!aA1!'') = \<lparr>score = 3, label = Some ''Strong''\<rparr>"
proof (intro conjI allI impI)
  fix pw :: string
  assume ne: "pw \<noteq> []"
  define p where "p = poolSize pw"
  have b: "bits pw = (if p = 0 then 0 else real (length pw) * log 2 (real p))"
    by (simp add: bits_def p_def)
  have e: "estimateStrength (Some pw) =
      \<lparr>score = score_of (bits pw), label = Some (labels ! score_of (bits pw))\<rparr>"
    using ne by (rule estimateStrength_nonempty)
  show "let p = (if \<exists>c\<in>set pw. c \<in> set LOWER then 26 else 0) +
              (if \<exists>c\<in>set pw. c \<in> set UPPER then 26 else 0) +
              (if \<exists>c\<in>set pw. c \<in> set NUMBERS then 10 else 0) +
              (if \<exists>c\<in>set pw. c \<in> set SYMBOLS then 32 else (0::nat));
          b = (if p = 0 then 0 else real (length pw) * log 2 (real p));
          s = (if b > 80 then 4 else if b > 60 then 3 else if b > 40 then 2
               else if b > 20 then 1 else (0::nat))
      in poolSize pw = p \<and> bits pw = b \<and>
         estimateStrength (Some pw) =
           \<lparr>score = s,
            label = Some ([''Very weak'', ''Weak'', ''Okay'', ''Strong'', ''Very strong''] ! s)\<rparr>"
    unfolding poolSize_classes [symmetric] Let_def p_def [symmetric] b [symmetric]
      score_of_def [symmetric] labels_def [symmetric]
    using e by (simp add: p_def)
next
  have "score_of (bits ''aaaaaaaaaaaa'') = 2"
    by (simp add: score_of_bits poolSize_a12)
  then show "estimateStrength (Some ''aaaaaaaaaaaa'') = \<lparr>score = 2, label = Some ''Okay''\<rparr>"
    by (simp add: estimateStrength_nonempty labels_def)
next
  have "score_of (bits ''aA1!aA1!aA1!'') = 3"
    by (simp add: score_of_bits poolSize_mixed12)
  then show "estimateStrength (Some ''aA1!aA1!aA1!'') = \<lparr>score = 3, label = Some ''Strong''\<rparr>"
    by (simp add: estimateStrength_nonempty labels_def)
qed

theorem estimateStrength_formula_witness:
  "''Zeus2004'' \<noteq> [] \<and> poolSize ''Zeus2004'' = 62 \<and>
   bits ''Zeus2004'' = 8 * log 2 62 \<and>
   score (estimateStrength (Some ''Zeus2004'')) = 2 \<and>
   label (estimateStrength (Some ''Zeus2004'')) = Some ''Okay''"
proof -
  have ne: "''Zeus2004'' \<noteq> []" by simp
  have p: "(if \<exists>c\<in>set ''Zeus2004''. c \<in> set LOWER then 26 else 0) +
           (if \<exists>c\<in>set ''Zeus2004''. c \<in> set UPPER then 26 else 0) +
           (if \<exists>c\<in>set ''Zeus2004''. c \<in> set NUMBERS then 10 else 0) +
           (if \<exists>c\<in>set ''Zeus2004''. c \<in> set SYMBOLS then 32 else (0::nat)) = 62"
    by (simp add: LOWER_def UPPER_def NUMBERS_def SYMBOLS_def)
  have hi: "\<not> 60 < 8 * log 2 (62::real)"
    using bits_gt [of 62 60 8] by simp
  have lo: "40 < 8 * log 2 (62::real)"
    using bits_gt [of 62 40 8] by simp
  from hi have hi': "\<not> 80 < 8 * log 2 (62::real)" by simp
  have "poolSize ''Zeus2004'' = 62 \<and> bits ''Zeus2004'' = 8 * log 2 62 \<and>
        estimateStrength (Some ''Zeus2004'') = \<lparr>score = 2, label = Some ''Okay''\<rparr>"
    using estimateStrength_formula [THEN conjunct1, rule_format, OF ne]
    unfolding p Let_def using hi hi' lo by simp
  then show ?thesis by simp
qed

text \<open>
  Claim C6. The empty string and an absent argument both give score 0 and the label
  "Too short".
\<close>

theorem estimateStrength_empty:
  "estimateStrength (Some '''') = \<lparr>score = 0, label = Some ''Too short''\<rparr> \<and>
   estimateStrength None = \<lparr>score = 0, label = Some ''Too short''\<rparr>"
  by (simp add: estimateStrength_def)

text \<open>
  Claim C7. For every argument the score is at most 4 and the label is defined: it is
  "Too short" for a falsy argument and the entry of the five labels at the score
  otherwise, so the read \<^verbatim>\<open>labels[score]\<close> is never out of range. A non-empty password
  with no character of the four classes has pool size 0, the logarithm is not taken, and
  the result is score 0, "Very weak".
\<close>

theorem estimateStrength_total:
  "score (estimateStrength pwo) \<le> 4 \<and>
   (if pwo = None \<or> pwo = Some ''''
    then label (estimateStrength pwo) = Some ''Too short''
    else label (estimateStrength pwo) =
           Some ([''Very weak'', ''Weak'', ''Okay'', ''Strong'', ''Very strong'']
                   ! score (estimateStrength pwo))) \<and>
   (\<forall>pw. pwo = Some pw \<and> pw \<noteq> [] \<and>
         (\<forall>c\<in>set pw. c \<notin> set LOWER \<union> set UPPER \<union> set NUMBERS \<union> set SYMBOLS) \<longrightarrow>
         poolSize pw = 0 \<and>
         estimateStrength pwo = \<lparr>score = 0, label = Some ''Very weak''\<rparr>)"
proof (intro conjI allI impI)
  show "score (estimateStrength pwo) \<le> 4"
    by (cases pwo) (simp_all add: estimateStrength_def Let_def score_of_le)
next
  show "if pwo = None \<or> pwo = Some ''''
    then label (estimateStrength pwo) = Some ''Too short''
    else label (estimateStrength pwo) =
           Some ([''Very weak'', ''Weak'', ''Okay'', ''Strong'', ''Very strong'']
                   ! score (estimateStrength pwo))"
  proof (cases pwo)
    case None
    then show ?thesis by (simp add: estimateStrength_def)
  next
    case (Some pw)
    show ?thesis
    proof (cases "pw = []")
      case True
      with Some show ?thesis by (simp add: estimateStrength_def)
    next
      case False
      with Some show ?thesis
        by (simp add: estimateStrength_nonempty labels_def)
    qed
  qed
next
  fix pw :: string
  assume a: "pwo = Some pw \<and> pw \<noteq> [] \<and>
         (\<forall>c\<in>set pw. c \<notin> set LOWER \<union> set UPPER \<union> set NUMBERS \<union> set SYMBOLS)"
  then have z: "poolSize pw = 0"
    by (simp add: poolSize_classes)
  then show "poolSize pw = 0" .
  from z have "score_of (bits pw) = 0"
    by (simp add: bits_def score_of_def)
  with a show "estimateStrength pwo = \<lparr>score = 0, label = Some ''Very weak''\<rparr>"
    by (simp add: estimateStrength_nonempty labels_def)
qed

theorem estimateStrength_total_witness:
  "score (estimateStrength (Some '' ~ '')) \<le> 4 \<and>
   label (estimateStrength (Some '' ~ '')) = Some ''Very weak'' \<and>
   poolSize '' ~ '' = 0 \<and>
   label (estimateStrength None) = Some ''Too short''"
proof -
  have out: "\<forall>c\<in>set '' ~ ''. c \<notin> set LOWER \<union> set UPPER \<union> set NUMBERS \<union> set SYMBOLS"
    by (simp add: LOWER_def UPPER_def NUMBERS_def SYMBOLS_def)
  have "poolSize '' ~ '' = 0 \<and>
        estimateStrength (Some '' ~ '') = \<lparr>score = 0, label = Some ''Very weak''\<rparr>"
    using estimateStrength_total [of "Some '' ~ ''", THEN conjunct2, THEN conjunct2,
        rule_format, of "'' ~ ''"] out by simp
  moreover have "label (estimateStrength None) = Some ''Too short''"
    using estimateStrength_total [of None] by simp
  ultimately show ?thesis by simp
qed

subsection \<open>Runs in a runtime\<close>

lemma generatePassword_run_result:
  "snd (generatePassword_run rt opts) =
   generatePassword (\<lambda>i. math_random rt (random_calls rt + i)) opts"
  by (simp add: generatePassword_run_def generatePassword_def Let_def)

text \<open>
  The generator does depend on the runtime: the same settings give two passwords in two
  runtimes, and the count of calls advances by the seven draws (four seeds, three swaps).
\<close>

lemma generatePassword_run_depends:
  "snd (generatePassword_run
     \<lparr>math_random = (\<lambda>k. 1 / 2), random_calls = 0, form_controls = c\<rparr>
     \<lparr>length_opt = 4, includeLower = True, includeUpper = True, includeNumbers = True,
      includeSymbols = True, excludeSimilarChars = True, guaranteeEachType = True\<rparr>)
   = ''n+N6''"
  "random_calls (fst (generatePassword_run
     \<lparr>math_random = (\<lambda>k. 1 / 2), random_calls = 0, form_controls = c\<rparr>
     \<lparr>length_opt = 4, includeLower = True, includeUpper = True, includeNumbers = True,
      includeSymbols = True, excludeSimilarChars = True, guaranteeEachType = True\<rparr>))
   = 7"
  "snd (generatePassword_run
     \<lparr>math_random = (\<lambda>k. 1 / 4), random_calls = 0, form_controls = c\<rparr>
     \<lparr>length_opt = 4, includeLower = True, includeUpper = True, includeNumbers = True,
      includeSymbols = True, excludeSimilarChars = True, guaranteeEachType = True\<rparr>)
   = ''&4gG''"
  by code_simp+



end
